theory Spec2Isabelle
  imports
    Main
    "HOL-Library.Word"
    "HOL-Library.Signed_Division"
    "HOL-Library.Finite_Map"
    "HOL-Library.Multiset"
begin

unbundle bit_operations_syntax

section \<open>The sharded map of package dmap\<close>

text \<open>
  The development follows the package file that declares \<^verbatim>\<open>Shard\<close> with its
  \<^verbatim>\<open>count\<close> field, \<^verbatim>\<open>DMap\<close>, \<^verbatim>\<open>New\<close>, \<^verbatim>\<open>getShardIndex\<close>, \<^verbatim>\<open>getShard\<close>,
  \<^verbatim>\<open>Get\<close>, \<^verbatim>\<open>Set\<close>, \<^verbatim>\<open>Keys\<close>, \<^verbatim>\<open>Remove\<close>, \<^verbatim>\<open>Count\<close> and \<^verbatim>\<open>Has\<close>.

  Conventions of the embedding:
  \<^item> a Go \<^verbatim>\<open>byte\<close> is an \<open>8 word\<close>; a Go \<^verbatim>\<open>int\<close> that only ever holds a slice
    length or a value derived from one byte is an \<open>int\<close> (nothing there can wrap);
    the running counter \<^verbatim>\<open>count\<close>, which grows with every call, is a \<open>64 word\<close>
    (Go's \<^verbatim>\<open>int\<close> on a 64-bit platform), so that \<open>+\<close> wraps as in Go, and
    \<open>sint\<close> reads it;
  \<^item> a Go map is a finite map \<open>('k, 'v) fmap\<close>;
  \<^item> a run-time panic is a value \<open>Inl p\<close> of the result type \<open>panic + 'a\<close>;
  \<^item> the model is of sequential executions: every operation takes the lock of the
    shard it works on and releases it before it returns, so between two completed
    operations no lock is held, and the field \<^verbatim>\<open>mu\<close> carries no state of its own.
\<close>

subsection \<open>Data\<close>

type_synonym byte = "8 word"

text \<open>\<^verbatim>\<open>type Shard[K comparable, V any] struct { mu sync.RWMutex; items map[K]V; count int }\<close>\<close>

record ('k, 'v) Shard =
  items :: "('k, 'v) fmap"
  count :: "64 word"

text \<open>
  \<^verbatim>\<open>type DMap[K comparable, V any] []*Shard[K, V]\<close>. \<^verbatim>\<open>New\<close> is the package's only
  constructor and stores a freshly allocated shard at every index, so the pointers of a
  map are pairwise different and never nil: the slice of pointers is the list of the
  shards, and a \<^verbatim>\<open>*Shard\<close> of the map is the position of the shard in that list.
\<close>

type_synonym ('k, 'v) DMap = "('k, 'v) Shard list"

text \<open>The run-time panics the package's code can reach.\<close>

datatype panic =
  MakeSliceLenOutOfRange   \<comment> \<open>\<^verbatim>\<open>make\<close> with a negative length\<close>
  | IntegerDivideByZero    \<comment> \<open>\<^verbatim>\<open>%\<close> with a zero divisor\<close>
  | IndexOutOfRange        \<comment> \<open>\<^verbatim>\<open>m[i]\<close> with \<^verbatim>\<open>i\<close> outside \<^verbatim>\<open>0 <= i < len(m)\<close>\<close>

subsection \<open>Construction\<close>

text \<open>
  \<^verbatim>\<open>for i := 0; i < nShards; i++ { shards[i] = &Shard[K, V]{items: make(map[K]V)} }\<close>.
  The argument \<open>shards\<close> is the part \<^verbatim>\<open>shards[0:i]\<close> of the slice that the loop has
  filled so far (the rest is still nil); a composite literal leaves \<^verbatim>\<open>count\<close> at
  its zero value.
\<close>

function New_loop :: "int \<Rightarrow> int \<Rightarrow> ('k, 'v) DMap \<Rightarrow> ('k, 'v) DMap" where
  "New_loop i nShards shards =
     (if i < nShards
      then New_loop (i + 1) nShards (shards @ [\<lparr>items = fmempty, count = 0\<rparr>])
      else shards)"
  by pat_completeness auto
termination
  by (relation "measure (\<lambda>(i, nShards, shards). nat (nShards - i))") auto

declare New_loop.simps [simp del]

text \<open>
  \<^verbatim>\<open>func New[K comparable, V any](nShards int) DMap[K, V]\<close>.
  \<^verbatim>\<open>make([]*Shard[K, V], nShards)\<close> panics when \<^verbatim>\<open>nShards\<close> is negative; the
  function has no check of its own.
\<close>

definition New :: "int \<Rightarrow> panic + ('k, 'v) DMap" where
  "New nShards =
     (if nShards < 0 then Inl MakeSliceLenOutOfRange
      else Inr (New_loop 0 nShards []))"

subsection \<open>Routing\<close>

text \<open>
  \<^verbatim>\<open>checksum := sha1.Sum([]byte(fmt.Sprintf("%v", key)))\<close> calls the Go standard
  library; the functions of the map take it as the parameter \<open>cs\<close>, the digest of a
  key (an array of 20 bytes in Go).

  \<^verbatim>\<open>hash := int(checksum[7]<<1 | checksum[19])\<close>: both operands are bytes, so the
  shift and the or are computed in 8 bits, and the conversion to \<^verbatim>\<open>int\<close> reads the
  byte as unsigned.
\<close>

definition hash :: "('k \<Rightarrow> byte list) \<Rightarrow> 'k \<Rightarrow> int" where
  "hash cs key = (let checksum = cs key in uint (push_bit 1 (checksum ! 7) OR checksum ! 19))"

text \<open>
  \<^verbatim>\<open>return hash % len(m)\<close>: Go's \<^verbatim>\<open>%\<close> truncates towards zero (\<open>smod\<close>) and
  panics when the divisor is zero.
\<close>

definition getShardIndex :: "('k \<Rightarrow> byte list) \<Rightarrow> ('k, 'v) DMap \<Rightarrow> 'k \<Rightarrow> panic + int" where
  "getShardIndex cs m key =
     (if int (length m) = 0 then Inl IntegerDivideByZero
      else Inr (hash cs key smod int (length m)))"

text \<open>
  \<^verbatim>\<open>i := m.getShardIndex(key); return m[i]\<close>: the index expression panics outside
  the slice. The result is the pointer, that is the position of the shard.
\<close>

definition getShard :: "('k \<Rightarrow> byte list) \<Rightarrow> ('k, 'v) DMap \<Rightarrow> 'k \<Rightarrow> panic + nat" where
  "getShard cs m key =
     (case getShardIndex cs m key of
        Inl p \<Rightarrow> Inl p
      | Inr i \<Rightarrow> if 0 \<le> i \<and> i < int (length m) then Inr (nat i) else Inl IndexOutOfRange)"

subsection \<open>Point operations\<close>

text \<open>
  \<^verbatim>\<open>v, ok := shard.items[key]; return v, ok\<close>. A missing key gives the zero value of
  \<^verbatim>\<open>V\<close>, the parameter \<open>zero\<close>, and \<^verbatim>\<open>false\<close>.
\<close>

definition Get :: "('k \<Rightarrow> byte list) \<Rightarrow> 'v \<Rightarrow> ('k, 'v) DMap \<Rightarrow> 'k \<Rightarrow> panic + ('v \<times> bool)" where
  "Get cs zero m key =
     (case getShard cs m key of
        Inl p \<Rightarrow> Inl p
      | Inr shard \<Rightarrow>
          (case fmlookup (items (m ! shard)) key of
             Some v \<Rightarrow> Inr (v, True)
           | None \<Rightarrow> Inr (zero, False)))"

text \<open>\<^verbatim>\<open>shard.items[key] = val; shard.count += 1\<close>\<close>

definition Set :: "('k \<Rightarrow> byte list) \<Rightarrow> ('k, 'v) DMap \<Rightarrow> 'k \<Rightarrow> 'v \<Rightarrow> panic + ('k, 'v) DMap" where
  "Set cs m key val =
     (case getShard cs m key of
        Inl p \<Rightarrow> Inl p
      | Inr shard \<Rightarrow>
          Inr (m[shard := (m ! shard)\<lparr>items := fmupd key val (items (m ! shard)),
                                      count := count (m ! shard) + 1\<rparr>]))"

text \<open>\<^verbatim>\<open>delete(shard.items, key)\<close>\<close>

definition Remove :: "('k \<Rightarrow> byte list) \<Rightarrow> ('k, 'v) DMap \<Rightarrow> 'k \<Rightarrow> panic + ('k, 'v) DMap" where
  "Remove cs m key =
     (case getShard cs m key of
        Inl p \<Rightarrow> Inl p
      | Inr shard \<Rightarrow> Inr (m[shard := (m ! shard)\<lparr>items := fmdrop key (items (m ! shard))\<rparr>]))"

text \<open>\<^verbatim>\<open>_, ok := m.Get(key); return ok\<close>\<close>

definition Has :: "('k \<Rightarrow> byte list) \<Rightarrow> 'v \<Rightarrow> ('k, 'v) DMap \<Rightarrow> 'k \<Rightarrow> panic + bool" where
  "Has cs zero m key =
     (case Get cs zero m key of Inl p \<Rightarrow> Inl p | Inr (v, ok) \<Rightarrow> Inr ok)"

subsection \<open>Whole-map operations\<close>

text \<open>
  \<^verbatim>\<open>for i := 0; i < len(m); i++ { shard := m[i]; count += shard.count }\<close>, with the
  local \<^verbatim>\<open>count\<close> starting at 0 and wrapping like every Go \<^verbatim>\<open>int\<close>.
\<close>

fun Count_loop :: "('k, 'v) DMap \<Rightarrow> 64 word \<Rightarrow> 64 word" where
  "Count_loop [] count' = count'"
| "Count_loop (shard # rest) count' = Count_loop rest (count' + count shard)"

text \<open>\<^verbatim>\<open>return int64(count)\<close>: on 64 bits the conversion changes nothing.\<close>

definition Count :: "('k, 'v) DMap \<Rightarrow> 64 word" where
  "Count m = Count_loop m 0"





subsection \<open>Sequences of calls\<close>

datatype ('k, 'v) operation = CallSet 'k 'v | CallRemove 'k

fun call :: "('k \<Rightarrow> byte list) \<Rightarrow> ('k, 'v) DMap \<Rightarrow> ('k, 'v) operation \<Rightarrow> panic + ('k, 'v) DMap" where
  "call cs m (CallSet key val) = Set cs m key val"
| "call cs m (CallRemove key) = Remove cs m key"

text \<open>A panic ends the execution.\<close>

fun calls :: "('k \<Rightarrow> byte list) \<Rightarrow> ('k, 'v) DMap \<Rightarrow> ('k, 'v) operation list \<Rightarrow> panic + ('k, 'v) DMap" where
  "calls cs m [] = Inr m"
| "calls cs m (c # rest) =
     (case call cs m c of Inl p \<Rightarrow> Inl p | Inr m' \<Rightarrow> calls cs m' rest)"

text \<open>\<^verbatim>\<open>m := New(nShards)\<close> followed by the calls on \<^verbatim>\<open>m\<close>.\<close>

definition execution ::
  "('k \<Rightarrow> byte list) \<Rightarrow> int \<Rightarrow> ('k, 'v) operation list \<Rightarrow> panic + ('k, 'v) DMap" where
  "execution cs nShards cls =
     (case New nShards of Inl p \<Rightarrow> Inl p | Inr m \<Rightarrow> calls cs m cls)"

subsection \<open>The digest of a string key\<close>

text \<open>
  For a key of type \<^verbatim>\<open>string\<close>, \<^verbatim>\<open>fmt.Sprintf("%v", key)\<close> is the key itself and
  \<^verbatim>\<open>[]byte\<close> gives its bytes. \<^verbatim>\<open>sha1.Sum\<close> is SHA-1 as the standard defines it
  (FIPS 180-4): the message is padded to a multiple of 64 bytes and a state of five
  32-bit words is updated block after block. The definitions below are used to
  run the map on concrete string keys.
\<close>

definition be32 :: "byte list \<Rightarrow> 32 word" where
  "be32 bs = foldl (\<lambda>w b. push_bit 8 w OR ucast b) 0 bs"

definition be_bytes :: "nat \<Rightarrow> 'a::len word \<Rightarrow> byte list" where
  "be_bytes n w = map (\<lambda>i. ucast (drop_bit (8 * i) w)) (rev [0..<n])"

definition sha1_pad :: "byte list \<Rightarrow> byte list" where
  "sha1_pad msg =
     msg @ [0x80] @ replicate ((119 - length msg mod 64) mod 64) 0
       @ be_bytes 8 (word_of_nat (8 * length msg) :: 64 word)"

text \<open>Rotation to the left by \<open>n\<close> bits, \<open>0 < n < 32\<close>: \<^verbatim>\<open>x<<n | x>>(32-n)\<close>.\<close>

definition rotl :: "nat \<Rightarrow> 32 word \<Rightarrow> 32 word" where
  "rotl n w = push_bit n w OR drop_bit (32 - n) w"

definition sha1_schedule :: "byte list \<Rightarrow> 32 word list" where
  "sha1_schedule block =
     fold (\<lambda>t w. w @ [rotl 1 (w ! (t - 3) XOR w ! (t - 8) XOR w ! (t - 14) XOR w ! (t - 16))])
       [16..<80] (map (\<lambda>t. be32 (take 4 (drop (4 * t) block))) [0..<16])"

type_synonym sha1_state = "32 word \<times> 32 word \<times> 32 word \<times> 32 word \<times> 32 word"

definition sha1_round :: "32 word list \<Rightarrow> nat \<Rightarrow> sha1_state \<Rightarrow> sha1_state" where
  "sha1_round w t st =
     (case st of (a, b, c, d, e) \<Rightarrow>
        let (f, k) =
          (if t < 20 then ((b AND c) OR (NOT b AND d), 0x5A827999)
           else if t < 40 then (b XOR c XOR d, 0x6ED9EBA1)
           else if t < 60 then ((b AND c) OR (b AND d) OR (c AND d), 0x8F1BBCDC)
           else (b XOR c XOR d, 0xCA62C1D6))
        in (rotl 5 a + f + e + k + w ! t, a, rotl 30 b, c, d))"

definition sha1_block :: "byte list \<Rightarrow> sha1_state \<Rightarrow> sha1_state" where
  "sha1_block block h =
     (case h of (h0, h1, h2, h3, h4) \<Rightarrow>
        let w = sha1_schedule block;
            (a, b, c, d, e) = fold (sha1_round w) [0..<80] (h0, h1, h2, h3, h4)
        in (h0 + a, h1 + b, h2 + c, h3 + d, h4 + e))"

definition sha1_Sum :: "byte list \<Rightarrow> byte list" where
  "sha1_Sum data =
     (let p = sha1_pad data;
          (h0, h1, h2, h3, h4) =
             fold (\<lambda>i. sha1_block (take 64 (drop (64 * i) p))) [0..<length p div 64]
               (0x67452301, 0xEFCDAB89, 0x98BADCFE, 0x10325476, 0xC3D2E1F0)
      in concat (map (be_bytes 4) [h0, h1, h2, h3, h4]))"

text \<open>\<^verbatim>\<open>sha1.Sum([]byte(fmt.Sprintf("%v", key)))\<close> for a key of type \<^verbatim>\<open>string\<close>.\<close>

definition checksum_of_string :: "string \<Rightarrow> byte list" where
  "checksum_of_string key = sha1_Sum (map of_char key)"

subsection \<open>Notions of the specification\<close>

text \<open>The number of \<^verbatim>\<open>Set\<close> calls in a sequence of calls.\<close>

fun is_Set :: "('k, 'v) operation \<Rightarrow> bool" where
  "is_Set (CallSet key val) = True"
| "is_Set (CallRemove key) = False"

definition Set_calls :: "('k, 'v) operation list \<Rightarrow> nat" where
  "Set_calls cls = length (filter is_Set cls)"

text \<open>
  The live keys after a sequence of calls: the keys that were set and not removed
  afterwards. \<open>live S cls\<close> starts from the keys \<open>S\<close>.
\<close>

fun live :: "'k set \<Rightarrow> ('k, 'v) operation list \<Rightarrow> 'k set" where
  "live S [] = S"
| "live S (CallSet key val # rest) = live (insert key S) rest"
| "live S (CallRemove key # rest) = live (S - {key}) rest"

definition live_keys :: "('k, 'v) operation list \<Rightarrow> 'k set" where
  "live_keys cls = live {} cls"



section \<open>Properties\<close>

subsection \<open>Construction and routing\<close>

lemma New_loop_eq:
  "i \<le> nShards \<Longrightarrow>
   New_loop i nShards shards = shards @ replicate (nat (nShards - i)) \<lparr>items = fmempty, count = 0\<rparr>"
proof (induction i nShards shards rule: New_loop.induct)
  case (1 i nShards shards)
  show ?case
  proof (cases "i < nShards")
    case True
    then have "nat (nShards - i) = Suc (nat (nShards - (i + 1)))" by simp
    with True 1 show ?thesis
      by (subst New_loop.simps) (simp add: replicate_append_same)
  next
    case False
    with 1 show ?thesis by (subst New_loop.simps) simp
  qed
qed

lemma New_eq:
  "0 \<le> nShards \<Longrightarrow> New nShards = Inr (replicate (nat nShards) \<lparr>items = fmempty, count = 0\<rparr>)"
  by (simp add: New_def New_loop_eq)

text \<open>The digest of a string key has the 20 bytes of Go's \<^verbatim>\<open>[20]byte\<close>.\<close>

lemma length_checksum_of_string: "length (checksum_of_string key) = 20"
  by (simp add: checksum_of_string_def sha1_Sum_def be_bytes_def Let_def split: prod.splits)

text \<open>The hash is the value of one byte, whatever the digest is.\<close>

lemma hash_range: "0 \<le> hash cs key \<and> hash cs key \<le> 255"
proof -
  have "uint (w :: byte) \<le> 255" for w
    using uint_bounded [of w] by simp
  then show ?thesis by (simp add: hash_def Let_def)
qed

lemma getShardIndex_eq:
  "m \<noteq> [] \<Longrightarrow> getShardIndex cs m key = Inr (hash cs key mod int (length m))"
  using hash_range [of cs key]
  by (simp add: getShardIndex_def smod_int_alt_def sgn_if)

lemma getShard_eq:
  "m \<noteq> [] \<Longrightarrow> getShard cs m key = Inr (nat (hash cs key mod int (length m)))"
  by (simp add: getShard_def getShardIndex_eq)

lemma getShard_less:
  "getShard cs m key = Inr i \<Longrightarrow> i < length m"
  by (auto simp: getShard_def split: sum.splits if_splits)

subsection \<open>Set, Remove and Count\<close>

lemma Set_eq:
  "m \<noteq> [] \<Longrightarrow> Set cs m key val =
     Inr (m[nat (hash cs key mod int (length m)) :=
            (m ! nat (hash cs key mod int (length m)))
              \<lparr>items := fmupd key val (items (m ! nat (hash cs key mod int (length m)))),
               count := count (m ! nat (hash cs key mod int (length m))) + 1\<rparr>])"
  by (simp add: Set_def getShard_eq)

lemma Remove_eq:
  "m \<noteq> [] \<Longrightarrow> Remove cs m key =
     Inr (m[nat (hash cs key mod int (length m)) :=
            (m ! nat (hash cs key mod int (length m)))
              \<lparr>items := fmdrop key (items (m ! nat (hash cs key mod int (length m))))\<rparr>])"
  by (simp add: Remove_def getShard_eq)

lemma route_less: "m \<noteq> [] \<Longrightarrow> nat (hash cs key mod int (length m)) < length m"
proof -
  assume "m \<noteq> []"
  then have "0 < int (length m)" by simp
  then have "hash cs key mod int (length m) < int (length m)"
    by (rule pos_mod_bound)
  moreover have "0 \<le> hash cs key mod int (length m)"
    using \<open>0 < int (length m)\<close> by simp
  ultimately show ?thesis by (simp add: nat_less_iff)
qed

lemma call_returns:
  "m \<noteq> [] \<Longrightarrow> \<exists>m'. call cs m c = Inr m' \<and> length m' = length m"
  by (cases c) (simp_all add: Set_eq Remove_eq)

lemma calls_returns:
  "m \<noteq> [] \<Longrightarrow> \<exists>m'. calls cs m cls = Inr m' \<and> length m' = length m"
proof (induction cls arbitrary: m)
  case Nil
  then show ?case by simp
next
  case (Cons c cls)
  from call_returns [OF Cons.prems, of cs c]
  obtain m1 where m1: "call cs m c = Inr m1" "length m1 = length m" by blast
  with Cons.prems have "m1 \<noteq> []" by auto
  from Cons.IH [OF this] m1 show ?case by auto
qed

lemma Count_loop_eq: "Count_loop m c = c + sum_list (map count m)"
  by (induction m arbitrary: c) (simp_all add: add.assoc)

lemma Count_eq: "Count m = sum_list (map count m)"
  by (simp add: Count_def Count_loop_eq)

lemma sum_list_count_update:
  "i < length m \<Longrightarrow>
   sum_list (map count (m[i := s])) = sum_list (map count m) - count (m ! i) + count s"
proof (induction m arbitrary: i)
  case Nil
  then show ?case by simp
next
  case (Cons x m)
  then show ?case by (cases i) simp_all
qed

lemma Count_Set:
  "m \<noteq> [] \<Longrightarrow> Set cs m key val = Inr m' \<Longrightarrow> Count m' = Count m + 1"
  by (auto simp: Set_eq Count_eq sum_list_count_update route_less)

lemma Count_Remove:
  "m \<noteq> [] \<Longrightarrow> Remove cs m key = Inr m' \<Longrightarrow> Count m' = Count m"
  by (auto simp: Remove_eq Count_eq sum_list_count_update route_less)

lemma calls_Count:
  "m \<noteq> [] \<Longrightarrow> calls cs m cls = Inr m' \<Longrightarrow> Count m' = Count m + of_nat (Set_calls cls)"
proof (induction cls arbitrary: m)
  case Nil
  then show ?case by (simp add: Set_calls_def)
next
  case (Cons c cls)
  from call_returns [OF Cons.prems(1), of cs c]
  obtain m1 where m1: "call cs m c = Inr m1" "length m1 = length m" by blast
  with Cons.prems have ne: "m1 \<noteq> []" by auto
  from m1 Cons.prems have rest: "calls cs m1 cls = Inr m'" by simp
  have step: "Count m1 = Count m + of_nat (Set_calls [c])"
  proof (cases c)
    case (CallSet key val)
    with m1 Cons.prems(1) show ?thesis
      by (simp add: Set_calls_def Count_Set)
  next
    case (CallRemove key)
    with m1 Cons.prems(1) show ?thesis
      by (simp add: Set_calls_def Count_Remove)
  qed
  have "Set_calls (c # cls) = Set_calls [c] + Set_calls cls"
    by (simp add: Set_calls_def)
  with Cons.IH [OF ne rest] step show ?case by simp
qed










subsection \<open>Keys\<close>








subsection \<open>Executions from a new map\<close>

lemma execution_eq:
  "0 \<le> nShards \<Longrightarrow>
   execution cs nShards cls = calls cs (replicate (nat nShards) \<lparr>items = fmempty, count = 0\<rparr>) cls"
  by (simp add: execution_def New_eq)

lemma execution_returns:
  assumes "0 < nShards"
  shows "\<exists>m. execution cs nShards cls = Inr m \<and> length m = nat nShards"
proof -
  from assms have "replicate (nat nShards) \<lparr>items = fmempty, count = 0 :: 64 word\<rparr> \<noteq> []"
    by simp
  from calls_returns [OF this] assms show ?thesis
    by (simp add: execution_eq)
qed

lemma execution_Count:
  assumes "0 < nShards" and "execution cs nShards cls = Inr m"
  shows "Count m = of_nat (Set_calls cls)"
proof -
  let ?m0 = "replicate (nat nShards) \<lparr>items = fmempty, count = 0 :: 64 word\<rparr>"
  from assms have ne: "?m0 \<noteq> []" and run: "calls cs ?m0 cls = Inr m"
    by (simp_all add: execution_eq)
  have "Count ?m0 = 0" by (simp add: Count_eq sum_list_replicate)
  with calls_Count [OF ne run] show ?thesis by simp
qed


lemma sint_of_nat_64:
  "n < 2 ^ 63 \<Longrightarrow> sint (of_nat n :: 64 word) = int n"
proof -
  assume "n < 2 ^ 63"
  then have "int n < 2 ^ 63" by (metis of_nat_less_numeral_power_cancel_iff)
  then have "signed_take_bit 63 (int n) = int n"
    by (intro signed_take_bit_int_eq_self) simp_all
  moreover have "sint (of_nat n :: 64 word) = signed_take_bit 63 (int n)"
    using sint_sbintrunc' [of "int n", where 'a = 64] by simp
  ultimately show ?thesis by simp
qed

lemma route_le_255: "m \<noteq> [] \<Longrightarrow> nat (hash cs key mod int (length m)) \<le> 255"
proof -
  assume "m \<noteq> []"
  then have "0 < int (length m)" by simp
  with hash_range [of cs key] have "hash cs key mod int (length m) \<le> hash cs key"
    by (intro zmod_le_nonneg_dividend) simp
  with hash_range [of cs key] show ?thesis by (simp add: nat_le_iff)
qed

lemma call_untouched:
  assumes "m \<noteq> []" and "call cs m c = Inr m'" and "256 \<le> i"
  shows "m' ! i = m ! i"
proof -
  have "nat (hash cs key mod int (length m)) \<noteq> i" for key
    using route_le_255 [OF assms(1), of cs key] assms(3) by simp
  with assms(1,2) show ?thesis
    by (cases c) (auto simp: Set_eq Remove_eq)
qed

lemma calls_untouched:
  "m \<noteq> [] \<Longrightarrow> calls cs m cls = Inr m' \<Longrightarrow> 256 \<le> i \<Longrightarrow> m' ! i = m ! i"
proof (induction cls arbitrary: m)
  case Nil
  then show ?case by simp
next
  case (Cons c cls)
  from call_returns [OF Cons.prems(1), of cs c]
  obtain m1 where m1: "call cs m c = Inr m1" "length m1 = length m" by blast
  with Cons.prems have ne: "m1 \<noteq> []" by auto
  from m1 Cons.prems have rest: "calls cs m1 cls = Inr m'" by simp
  from Cons.IH [OF ne rest Cons.prems(3)] call_untouched [OF Cons.prems(1) m1(1) Cons.prems(3)]
  show ?case by simp
qed

section \<open>The claims\<close>

text \<open>
  C1 (the field \<^verbatim>\<open>count\<close> of a shard equals the number of entries of its
  \<^verbatim>\<open>items\<close> between two completed operations). The code at the input
  \<^verbatim>\<open>m := New(1); m.Set("a", 1); m.Set("a", 2)\<close>: the only shard holds one entry and
  its \<^verbatim>\<open>count\<close> is 2, because \<^verbatim>\<open>Set\<close> adds 1 whether or not the key is new (and
  \<^verbatim>\<open>Remove\<close> never subtracts).
\<close>

theorem shard_count_after_second_Set_of_a_key:
  "map_sum id (map (\<lambda>shard. (card (fmdom' (items shard)), sint (count shard))))
     (execution checksum_of_string 1 [CallSet ''a'' (1::int), CallSet ''a'' 2])
   = Inr [(1, 2)]"
  by (simp add: execution_eq Set_eq)

text \<open>
  C2 (\<^verbatim>\<open>Set\<close> stores the value and increments the shard's count if and only if
  the key was not present). The code at the input \<^verbatim>\<open>m := New(1); m.Set("a", 1)\<close>
  followed by \<^verbatim>\<open>m.Set("a", 2)\<close>: the value is overwritten, and the count goes from 1
  to 2 although the key was present.
\<close>

theorem Set_of_a_present_key_increments_count:
  "execution checksum_of_string 1 [CallSet ''a'' (1::int)]
     = Inr [\<lparr>items = fmupd ''a'' 1 fmempty, count = 1\<rparr>]
   \<and> Set checksum_of_string [\<lparr>items = fmupd ''a'' (1::int) fmempty, count = 1\<rparr>] ''a'' 2
     = Inr [\<lparr>items = fmupd ''a'' 2 fmempty, count = 2\<rparr>]"
  by (simp add: execution_eq Set_eq)

text \<open>
  C3 (\<^verbatim>\<open>Remove\<close> deletes the key if present and decrements the shard's count if
  and only if a deletion occurred). The code at the input
  \<^verbatim>\<open>m := New(1); m.Set("a", 1)\<close> followed by \<^verbatim>\<open>m.Remove("a")\<close>: the key is deleted
  and the count stays 1.
\<close>

theorem Remove_of_a_present_key_keeps_count:
  "execution checksum_of_string 1 [CallSet ''a'' (1::int)]
     = Inr [\<lparr>items = fmupd ''a'' 1 fmempty, count = 1\<rparr>]
   \<and> Remove checksum_of_string [\<lparr>items = fmupd ''a'' (1::int) fmempty, count = 1\<rparr>] ''a''
     = Inr [\<lparr>items = fmempty, count = 1\<rparr>]"
  by (simp add: execution_eq Set_eq Remove_eq fmdrop_fmupd_same)

text \<open>
  C4 (after a sequence of \<^verbatim>\<open>Set\<close> and \<^verbatim>\<open>Remove\<close> calls on a new map,
  \<^verbatim>\<open>Count()\<close> is the number of live keys). The code at the input
  \<^verbatim>\<open>m := New(10); m.Set("a", 1); m.Set("b", 2); m.Remove("a")\<close>: \<^verbatim>\<open>Count()\<close>
  returns 2 and one key is live.
\<close>

theorem Count_after_Set_Set_Remove:
  "map_sum id (\<lambda>m. sint (Count m))
     (execution checksum_of_string 10
        [CallSet ''a'' (1::int), CallSet ''b'' 2, CallRemove ''a'']) = Inr 2
   \<and> card (live_keys [CallSet ''a'' (1::int), CallSet ''b'' 2, CallRemove ''a'']) = 1"
proof -
  let ?cls = "[CallSet ''a'' (1::int), CallSet ''b'' 2, CallRemove ''a'']"
  obtain m where m: "execution checksum_of_string 10 ?cls = Inr m"
    using execution_returns [of 10 checksum_of_string ?cls] by auto
  have "Count m = of_nat (Set_calls ?cls)"
    by (rule execution_Count [OF _ m]) simp
  then have "sint (Count m) = 2" by (simp add: Set_calls_def)
  moreover have "live_keys ?cls = {''b''}" by (auto simp: live_keys_def)
  ultimately show ?thesis using m by simp
qed

text \<open>
  C5 as stated (for every shard count \<open>n \<le> 0\<close>, \<^verbatim>\<open>New(n)\<close> itself signals
  the error) fails at \<open>n = 0\<close>: \<^verbatim>\<open>New(0)\<close> returns a map without shards, and the
  division by zero comes with the first \<^verbatim>\<open>Set\<close>.
\<close>

theorem New_zero_returns_a_map_without_shards:
  "(New 0 :: panic + (string, int) DMap) = Inr []
   \<and> Set checksum_of_string [] ''a'' (1::int) = Inl IntegerDivideByZero"
  by (simp add: New_eq Set_def getShard_def getShardIndex_def)

text \<open>
  C5, amended: for every negative shard count \<^verbatim>\<open>New\<close> panics at construction
  (\<^verbatim>\<open>make\<close> rejects the negative length); \<^verbatim>\<open>New(0)\<close> returns a map without
  shards, on which every \<^verbatim>\<open>Get\<close>, \<^verbatim>\<open>Set\<close>, \<^verbatim>\<open>Remove\<close> and \<^verbatim>\<open>Has\<close> panics
  with an integer division by zero.
\<close>

theorem New_panics_for_negative_counts_only:
  "(nShards < 0 \<longrightarrow> (New nShards :: panic + ('k, 'v) DMap) = Inl MakeSliceLenOutOfRange)
   \<and> (New 0 :: panic + ('k, 'v) DMap) = Inr []
   \<and> Get cs zero ([] :: ('k, 'v) DMap) key = Inl IntegerDivideByZero
   \<and> Set cs ([] :: ('k, 'v) DMap) key val = Inl IntegerDivideByZero
   \<and> Remove cs ([] :: ('k, 'v) DMap) key = Inl IntegerDivideByZero
   \<and> Has cs zero ([] :: ('k, 'v) DMap) key = Inl IntegerDivideByZero"
proof -
  have "nShards < 0 \<longrightarrow> (New nShards :: panic + ('k, 'v) DMap) = Inl MakeSliceLenOutOfRange"
    by (simp add: New_def)
  moreover have "(New 0 :: panic + ('k, 'v) DMap) = Inr []"
    by (simp add: New_eq)
  moreover have "getShard cs ([] :: ('k, 'v) DMap) key = Inl IntegerDivideByZero"
    by (simp add: getShard_def getShardIndex_def)
  ultimately show ?thesis
    by (simp add: Get_def Set_def Remove_def Has_def)
qed

text \<open>
  The amended statement at \<open>nShards = -1\<close> and the key \<^verbatim>\<open>"a"\<close>.
\<close>

theorem New_panics_for_negative_counts_only_witness:
  "(-1 :: int) < 0
   \<and> (New (-1) :: panic + (string, int) DMap) = Inl MakeSliceLenOutOfRange
   \<and> (New 0 :: panic + (string, int) DMap) = Inr []
   \<and> Get checksum_of_string 0 ([] :: (string, int) DMap) ''a'' = Inl IntegerDivideByZero"
  using New_panics_for_negative_counts_only
    [of "-1" checksum_of_string "0 :: int" "''a''" 0]
  by simp

text \<open>
  C6: for every key and every map with at least one shard, \<^verbatim>\<open>getShardIndex\<close>
  returns an index \<open>i\<close> with \<open>0 \<le> i < len(m)\<close>, so \<^verbatim>\<open>m[i]\<close> in
  \<^verbatim>\<open>getShard\<close> is in range: \<^verbatim>\<open>getShard\<close> returns the shard at \<open>i\<close> and the
  index-out-of-range panic is not reached.
\<close>

theorem getShardIndex_in_range:
  assumes "1 \<le> length m"
  shows "\<exists>i. getShardIndex cs m key = Inr i \<and> 0 \<le> i \<and> i < int (length m)
           \<and> getShard cs m key = Inr (nat i)"
proof -
  from assms have ne: "m \<noteq> []" by auto
  then have "0 < int (length m)" by simp
  then have "0 \<le> hash cs key mod int (length m)"
    and "hash cs key mod int (length m) < int (length m)"
    by simp_all
  with ne show ?thesis
    by (simp add: getShardIndex_eq getShard_eq)
qed

text \<open>
  The theorem at a map of two empty shards and the key \<^verbatim>\<open>"a"\<close>.
\<close>

theorem getShardIndex_in_range_witness:
  "1 \<le> length [\<lparr>items = fmempty :: (string, int) fmap, count = 0\<rparr>, \<lparr>items = fmempty, count = 0\<rparr>]
   \<and> (\<exists>i. getShardIndex checksum_of_string
              [\<lparr>items = fmempty :: (string, int) fmap, count = 0\<rparr>, \<lparr>items = fmempty, count = 0\<rparr>] ''a''
            = Inr i \<and> 0 \<le> i \<and> i < 2
          \<and> getShard checksum_of_string
              [\<lparr>items = fmempty :: (string, int) fmap, count = 0\<rparr>, \<lparr>items = fmempty, count = 0\<rparr>] ''a''
            = Inr (nat i))"
  using getShardIndex_in_range
    [of "[\<lparr>items = fmempty :: (string, int) fmap, count = 0\<rparr>, \<lparr>items = fmempty, count = 0\<rparr>]"
        checksum_of_string "''a''"]
  by simp





text \<open>
  C9: in every sequential execution on a map made by \<^verbatim>\<open>New\<close> with at least one
  shard, \<^verbatim>\<open>Count()\<close> is the number of \<^verbatim>\<open>Set\<close> calls made since construction,
  whatever keys they overwrote and whatever \<^verbatim>\<open>Remove\<close> calls came between. The
  result is an \<^verbatim>\<open>int64\<close>; the number of \<^verbatim>\<open>Set\<close> calls is taken below
  \<open>2 ^ 63\<close>, the numbers that type holds.
\<close>

theorem Count_is_the_number_of_Set_calls:
  assumes "0 < nShards" and "Set_calls cls < 2 ^ 63"
  shows "\<exists>m. execution cs nShards cls = Inr m \<and> sint (Count m) = int (Set_calls cls)"
proof -
  from execution_returns [OF assms(1)]
  obtain m where m: "execution cs nShards cls = Inr m" by blast
  from execution_Count [OF assms(1) m] assms(2) have "sint (Count m) = int (Set_calls cls)"
    by (simp add: sint_of_nat_64)
  with m show ?thesis by blast
qed

text \<open>
  The theorem at ten shards and the calls
  \<^verbatim>\<open>Set("a", 1); Set("a", 2); Remove("a"); Set("b", 3)\<close>: three \<^verbatim>\<open>Set\<close> calls.
\<close>

theorem Count_is_the_number_of_Set_calls_witness:
  "(0::int) < 10
   \<and> Set_calls [CallSet ''a'' (1::int), CallSet ''a'' 2, CallRemove ''a'', CallSet ''b'' 3] < 2 ^ 63
   \<and> (\<exists>m. execution checksum_of_string 10
               [CallSet ''a'' (1::int), CallSet ''a'' 2, CallRemove ''a'', CallSet ''b'' 3] = Inr m
          \<and> sint (Count m) = 3)"
  using Count_is_the_number_of_Set_calls
    [of 10 "[CallSet ''a'' (1::int), CallSet ''a'' 2, CallRemove ''a'', CallSet ''b'' 3]"
        checksum_of_string]
  by (simp add: Set_calls_def)

text \<open>
  C10: the hash of every key lies in \<open>[0, 255]\<close>; with more than 256 shards
  \<^verbatim>\<open>getShardIndex\<close> only returns indices from 0 to 255, and after every sequence
  of \<^verbatim>\<open>Set\<close> and \<^verbatim>\<open>Remove\<close> calls on a new map the shards from index 256 on are
  as \<^verbatim>\<open>New\<close> made them: no key, and a count of 0.
\<close>

theorem shards_from_256_on_stay_empty:
  assumes "256 < nShards"
  shows "0 \<le> hash cs key \<and> hash cs key \<le> 255
     \<and> (\<forall>m :: ('k, 'v) DMap. int (length m) = nShards \<longrightarrow>
           (\<exists>i. getShardIndex cs m key = Inr i \<and> 0 \<le> i \<and> i \<le> 255))
     \<and> (\<exists>m :: ('k, 'v) DMap. execution cs nShards cls = Inr m \<and> int (length m) = nShards
           \<and> (\<forall>i. 256 \<le> i \<and> i < length m \<longrightarrow> m ! i = \<lparr>items = fmempty, count = 0\<rparr>))"
proof -
  have idx: "\<exists>i. getShardIndex cs m key = Inr i \<and> 0 \<le> i \<and> i \<le> 255"
    if "int (length m) = nShards" for m :: "('k, 'v) DMap"
  proof -
    from that assms have ne: "m \<noteq> []" by auto
    then have "0 < int (length m)" by simp
    then have "0 \<le> hash cs key mod int (length m)" by simp
    moreover from route_le_255 [OF ne, of cs key]
    have "hash cs key mod int (length m) \<le> 255" by (simp add: nat_le_iff)
    ultimately show ?thesis using ne by (simp add: getShardIndex_eq)
  qed
  let ?m0 = "replicate (nat nShards) \<lparr>items = fmempty :: ('k, 'v) fmap, count = 0 :: 64 word\<rparr>"
  from assms have pos: "0 < nShards" by simp
  from execution_returns [OF pos, of cs cls]
  obtain m where m: "execution cs nShards cls = Inr m" "length m = nat nShards" by blast
  from pos m(1) have ne: "?m0 \<noteq> []" and run: "calls cs ?m0 cls = Inr m"
    by (simp_all add: execution_eq)
  have "m ! i = \<lparr>items = fmempty, count = 0\<rparr>" if "256 \<le> i \<and> i < length m" for i
    using calls_untouched [OF ne run, of i] that m(2) by simp
  with m pos idx hash_range [of cs key] show ?thesis by auto
qed

text \<open>
  The theorem at 300 shards and the calls \<^verbatim>\<open>Set("a", 1); Set("b", 2)\<close>.
\<close>

theorem shards_from_256_on_stay_empty_witness:
  "(256::int) < 300
   \<and> 0 \<le> hash checksum_of_string ''a'' \<and> hash checksum_of_string ''a'' \<le> 255
   \<and> (\<exists>i. getShardIndex checksum_of_string
               (replicate 300 \<lparr>items = fmempty :: (string, int) fmap, count = 0\<rparr>) ''a'' = Inr i
            \<and> 0 \<le> i \<and> i \<le> 255)
   \<and> (\<exists>m. execution checksum_of_string 300 [CallSet ''a'' (1::int), CallSet ''b'' 2] = Inr m
         \<and> int (length m) = 300
         \<and> (\<forall>i. 256 \<le> i \<and> i < length m \<longrightarrow> m ! i = \<lparr>items = fmempty, count = 0\<rparr>))"
proof -
  let ?m = "replicate 300 \<lparr>items = fmempty :: (string, int) fmap, count = 0 :: 64 word\<rparr>"
  have h: "(256::int) < 300" by simp
  note t = shards_from_256_on_stay_empty
    [OF h, of checksum_of_string "''a''" "[CallSet ''a'' (1::int), CallSet ''b'' 2]"]
  from t have a: "0 \<le> hash checksum_of_string ''a'' \<and> hash checksum_of_string ''a'' \<le> 255"
    by simp
  from t have "\<forall>m :: (string, int) DMap. int (length m) = 300 \<longrightarrow>
      (\<exists>i. getShardIndex checksum_of_string m ''a'' = Inr i \<and> 0 \<le> i \<and> i \<le> 255)"
    by simp
  then have "int (length ?m) = 300 \<longrightarrow>
      (\<exists>i. getShardIndex checksum_of_string ?m ''a'' = Inr i \<and> 0 \<le> i \<and> i \<le> 255)"
    by (rule spec)
  then have b: "\<exists>i. getShardIndex checksum_of_string ?m ''a'' = Inr i \<and> 0 \<le> i \<and> i \<le> 255"
    by simp
  from t have c: "\<exists>m. execution checksum_of_string 300 [CallSet ''a'' (1::int), CallSet ''b'' 2] = Inr m
         \<and> int (length m) = 300
         \<and> (\<forall>i. 256 \<le> i \<and> i < length m \<longrightarrow> m ! i = \<lparr>items = fmempty, count = 0\<rparr>)"
    by simp
  from h a b c show ?thesis by simp
qed

end
